theory Spec2Isabelle
  imports Main
begin

section \<open>Data model of the indexer (src/indexer.js)\<close>

text \<open>
  Signatures, wallet addresses and program identifiers are JavaScript strings (the base58
  form of a public key or a signature). An entry of the window returned by
  \<^verbatim>\<open>connection.getSignaturesForAddress\<close> is an object of which the indexer reads only
  the field \<^verbatim>\<open>signature\<close>; the slot is kept to tell entries apart.
\<close>

record ConfirmedSignatureInfo =
  signature :: string
  slot :: nat

text \<open>
  The module-level variable \<^verbatim>\<open>let lastProcessedSignature = null\<close> holds \<^verbatim>\<open>null\<close> or
  a string: \<open>None\<close> is \<^verbatim>\<open>null\<close>. The source tests it with \<^verbatim>\<open>if (lastProcessedSignature)\<close>,
  which is false for \<^verbatim>\<open>null\<close> and for the empty string.
\<close>

definition truthy :: "string option \<Rightarrow> bool" where
  "truthy v = (case v of None \<Rightarrow> False | Some s \<Rightarrow> s \<noteq> [])"

text \<open>\<^verbatim>\<open>Array.prototype.findIndex\<close>: the first index whose element satisfies the
  predicate, \<open>-1\<close> when there is none.\<close>

fun findIndexFrom :: "('a \<Rightarrow> bool) \<Rightarrow> int \<Rightarrow> 'a list \<Rightarrow> int" where
  "findIndexFrom P i [] = - 1"
| "findIndexFrom P i (x # xs) = (if P x then i else findIndexFrom P (i + 1) xs)"

definition findIndex :: "('a \<Rightarrow> bool) \<Rightarrow> 'a list \<Rightarrow> int" where
  "findIndex P xs = findIndexFrom P 0 xs"

text \<open>\<^verbatim>\<open>Array.prototype.slice(b, e)\<close> for indices \<open>0 \<le> b \<le> e\<close>; an end beyond the
  array is clamped to its length.\<close>

definition slice :: "'a list \<Rightarrow> nat \<Rightarrow> nat \<Rightarrow> 'a list" where
  "slice xs b e = take (e - b) (drop b xs)"

text \<open>Lines 79--89 of \<^verbatim>\<open>processNewTransactions\<close>: the signatures still to process.\<close>

definition newSignaturesToProcess ::
  "string option \<Rightarrow> ConfirmedSignatureInfo list \<Rightarrow> ConfirmedSignatureInfo list" where
  "newSignaturesToProcess lastProcessed signaturesInfo =
     (if truthy lastProcessed then
        (let lastKnownIndex = findIndex (\<lambda>s. Some (signature s) = lastProcessed) signaturesInfo
         in if lastKnownIndex > - 1 then slice signaturesInfo 0 (nat lastKnownIndex)
            else signaturesInfo)
      else signaturesInfo)"


subsection \<open>Parsed transactions\<close>

text \<open>
  The shape of a \<^verbatim>\<open>ParsedTransactionWithMeta\<close> as far as the indexer reads it. An entry
  of the array returned by \<^verbatim>\<open>getParsedTransactions\<close> may be \<^verbatim>\<open>null\<close> (\<open>None\<close>); so may its
  \<^verbatim>\<open>transaction\<close> and \<^verbatim>\<open>meta\<close> fields and the \<^verbatim>\<open>err\<close> field of the meta data. A public key
  is its base58 string, so \<^verbatim>\<open>programId.equals\<close> is equality of strings.
\<close>

record ParsedMessageAccount =
  pubkey :: string
  signer :: bool
  writable :: bool

record ParsedInstruction =
  programId :: string

record ParsedMessage =
  accountKeys :: "ParsedMessageAccount list"
  instructions :: "ParsedInstruction list"

record ParsedTransaction =
  message :: ParsedMessage

record ParsedTransactionMeta =
  err :: "string option"

record ParsedTransactionWithMeta =
  transaction :: "ParsedTransaction option"
  meta :: "ParsedTransactionMeta option"

subsection \<open>The per-cycle counts: a JavaScript \<^verbatim>\<open>Map\<close>\<close>

text \<open>
  \<^verbatim>\<open>walletInteractionCounts\<close> is a \<^verbatim>\<open>Map\<close> from wallet address to number. A \<^verbatim>\<open>Map\<close> iterates
  in insertion order and \<^verbatim>\<open>set\<close> on a present key keeps the key's position, so it is an
  association list with distinct keys.
\<close>

type_synonym counts = "(string \<times> int) list"

fun Map_set :: "counts \<Rightarrow> string \<Rightarrow> int \<Rightarrow> counts" where
  "Map_set [] k v = [(k, v)]"
| "Map_set ((k', v') # m) k v = (if k' = k then (k, v) # m else (k', v') # Map_set m k v)"

definition Map_get :: "counts \<Rightarrow> string \<Rightarrow> int option" where
  "Map_get m k = map_of m k"

text \<open>\<^verbatim>\<open>walletInteractionCounts.get(walletAddress) || 0\<close>: an absent key and a stored
  \<open>0\<close> both give \<open>0\<close>.\<close>

definition get_or_0 :: "counts \<Rightarrow> string \<Rightarrow> int" where
  "get_or_0 m k = (case Map_get m k of None \<Rightarrow> 0 | Some c \<Rightarrow> (if c = 0 then 0 else c))"

text \<open>
  The body of \<^verbatim>\<open>for (const tx of transactions)\<close>, lines 111--132: what one entry of a
  fetched batch does to the counts. The two \<^verbatim>\<open>else if\<close> branches of the source are empty.
\<close>

definition countTransaction :: "string \<Rightarrow> counts \<Rightarrow> ParsedTransactionWithMeta option \<Rightarrow> counts" where
  "countTransaction SOLANA_PROGRAM_ID walletInteractionCounts tx =
     (case tx of
        None \<Rightarrow> walletInteractionCounts
      | Some t \<Rightarrow>
          (case transaction t of
             None \<Rightarrow> walletInteractionCounts
           | Some tr \<Rightarrow>
               (case meta t of
                  None \<Rightarrow> walletInteractionCounts
                | Some m \<Rightarrow>
                    if err m = None then
                      (case find signer (accountKeys (message tr)) of
                         None \<Rightarrow> walletInteractionCounts
                       | Some firstSignerAccount \<Rightarrow>
                           (let walletAddress = pubkey firstSignerAccount;
                                programInteracted =
                                  list_ex (\<lambda>ix. programId ix = SOLANA_PROGRAM_ID)
                                    (instructions (message tr))
                            in if programInteracted then
                                 Map_set walletInteractionCounts walletAddress
                                   (get_or_0 walletInteractionCounts walletAddress + 1)
                               else walletInteractionCounts))
                    else walletInteractionCounts)))"

subsection \<open>The collaborators of a cycle\<close>

text \<open>
  What the ledger node and the database answer during one cycle is not decided by the
  indexer; it is the cycle's environment. An RPC call either returns or throws
  (\<open>Inl\<close>). A statement sent on the database client either resolves or rejects, as
  \<open>queryOk\<close> says; \<open>getClientOk\<close> says whether \<^verbatim>\<open>db.getClient()\<close> resolves.
\<close>

datatype rpc_error = RpcError string

datatype sql = BEGIN | UPSERT string int | COMMIT | ROLLBACK

record env =
  SOLANA_PROGRAM_ID :: string
  getSignaturesForAddress :: "string option \<Rightarrow> rpc_error + ConfirmedSignatureInfo list"
  getParsedTransactions :: "string list \<Rightarrow> rpc_error + ParsedTransactionWithMeta option list"
  getClientOk :: bool
  queryOk :: "sql \<Rightarrow> bool"

definition BATCH_FETCH_SIZE :: nat where
  "BATCH_FETCH_SIZE = 20"

text \<open>
  The loop of lines 102--135 with its index \<open>i\<close>: each batch is fetched with one call of
  \<^verbatim>\<open>getParsedTransactions\<close>, whose exception leaves the loop (\<open>Inl\<close>). The pacing delay
  between batches changes no data.
\<close>

function fetchAndCount :: "env \<Rightarrow> ConfirmedSignatureInfo list \<Rightarrow> nat \<Rightarrow> counts \<Rightarrow> rpc_error + counts" where
  "fetchAndCount e news i walletInteractionCounts =
     (if i < length news then
        (let batchSignatures = map signature (slice news i (i + BATCH_FETCH_SIZE))
         in if batchSignatures = [] then
              fetchAndCount e news (i + BATCH_FETCH_SIZE) walletInteractionCounts
            else
              (case getParsedTransactions e batchSignatures of
                 Inl error \<Rightarrow> Inl error
               | Inr transactions \<Rightarrow>
                   fetchAndCount e news (i + BATCH_FETCH_SIZE)
                     (foldl (countTransaction (SOLANA_PROGRAM_ID e)) walletInteractionCounts
                        transactions)))
      else Inr walletInteractionCounts)"
  by pat_completeness auto
termination
  by (relation "measure (\<lambda>(e, news, i, c). length news - i)") (auto simp: BATCH_FETCH_SIZE_def)

declare fetchAndCount.simps [simp del]


subsection \<open>The counter table and a client session\<close>

text \<open>
  Table \<^verbatim>\<open>wallet_scores\<close> of \<^verbatim>\<open>database.sql\<close>: \<^verbatim>\<open>wallet_address\<close> is unique, so the table is
  a map from address to \<^verbatim>\<open>interaction_count\<close>, an \<^verbatim>\<open>INTEGER\<close> (a statement whose result
  leaves the 32-bit range is rejected by the database). The time stamps are left out.
\<close>

type_synonym table = "string \<rightharpoonup> int"

definition in_INTEGER :: "int \<Rightarrow> bool" where
  "in_INTEGER v = (- 2147483648 \<le> v \<and> v \<le> 2147483647)"

text \<open>\<^verbatim>\<open>INSERT ... VALUES ($1, $2) ON CONFLICT (wallet_address) DO UPDATE SET
  interaction_count = wallet_scores.interaction_count + $2\<close>; \<open>None\<close> when rejected.\<close>

definition upsert :: "string \<Rightarrow> int \<Rightarrow> table \<Rightarrow> table option" where
  "upsert walletAddress count t =
     (let v = (case t walletAddress of None \<Rightarrow> count | Some old \<Rightarrow> old + count)
      in if in_INTEGER count \<and> in_INTEGER v then Some (t(walletAddress \<mapsto> v)) else None)"

text \<open>
  A client checked out of the pool: \<open>committed\<close> is the table as every other reader sees
  it, \<open>txn\<close> the working copy of the open transaction, \<open>issued\<close> the statements sent so
  far. A statement that rejects changes no data; \<^verbatim>\<open>COMMIT\<close> publishes the working copy,
  \<^verbatim>\<open>ROLLBACK\<close> drops it.
\<close>

record client =
  committed :: table
  txn :: "table option"
  issued :: "sql list"

definition client_query :: "(sql \<Rightarrow> bool) \<Rightarrow> sql \<Rightarrow> client \<Rightarrow> bool \<times> client" where
  "client_query ok q c =
     (let c' = c\<lparr>issued := issued c @ [q]\<rparr>
      in if \<not> ok q then (False, c')
         else
           (case q of
              BEGIN \<Rightarrow>
                (True, (case txn c of None \<Rightarrow> c'\<lparr>txn := Some (committed c)\<rparr> | Some t \<Rightarrow> c'))
            | UPSERT w n \<Rightarrow>
                (case txn c of
                   Some t \<Rightarrow>
                     (case upsert w n t of
                        None \<Rightarrow> (False, c')
                      | Some t' \<Rightarrow> (True, c'\<lparr>txn := Some t'\<rparr>))
                 | None \<Rightarrow>
                     (case upsert w n (committed c) of
                        None \<Rightarrow> (False, c')
                      | Some t' \<Rightarrow> (True, c'\<lparr>committed := t'\<rparr>)))
            | COMMIT \<Rightarrow>
                (True, (case txn c of None \<Rightarrow> c' | Some t \<Rightarrow> c'\<lparr>committed := t, txn := None\<rparr>))
            | ROLLBACK \<Rightarrow> (True, c'\<lparr>txn := None\<rparr>)))"

text \<open>The loop \<^verbatim>\<open>for (const [walletAddress, count] of walletInteractionCounts)\<close>, left
  at the first statement that rejects.\<close>

fun upsertAll :: "(sql \<Rightarrow> bool) \<Rightarrow> counts \<Rightarrow> client \<Rightarrow> bool \<times> client" where
  "upsertAll ok [] c = (True, c)"
| "upsertAll ok ((walletAddress, count) # rest) c =
     (case client_query ok (UPSERT walletAddress count) c of
        (resolved, c') \<Rightarrow> if resolved then upsertAll ok rest c' else (False, c'))"

text \<open>The \<^verbatim>\<open>try\<close> block of lines 139--152.\<close>

definition tryBlock :: "(sql \<Rightarrow> bool) \<Rightarrow> counts \<Rightarrow> client \<Rightarrow> bool \<times> client" where
  "tryBlock ok walletInteractionCounts c =
     (case client_query ok BEGIN c of
        (resolved, c1) \<Rightarrow>
          if \<not> resolved then (False, c1)
          else
            (case upsertAll ok walletInteractionCounts c1 of
               (resolved, c2) \<Rightarrow>
                 if \<not> resolved then (False, c2) else client_query ok COMMIT c2))"

text \<open>
  Lines 137--159. \<open>Thrown\<close>: an exception left the statement (from \<^verbatim>\<open>db.getClient()\<close>, or
  from the \<^verbatim>\<open>ROLLBACK\<close> inside the \<^verbatim>\<open>catch\<close> handler) and reaches the outer \<^verbatim>\<open>catch\<close> of
  \<^verbatim>\<open>processNewTransactions\<close>. An exception of the \<^verbatim>\<open>try\<close> block is caught here, and
  control continues after the statement (\<open>Completed\<close>). The released client's open
  transaction, if any, is never committed.
\<close>

datatype outcome = Completed | Thrown

definition mergeCounts :: "env \<Rightarrow> counts \<Rightarrow> table \<Rightarrow> outcome \<times> table \<times> sql list" where
  "mergeCounts e walletInteractionCounts scores =
     (if length walletInteractionCounts > 0 then
        (if \<not> getClientOk e then (Thrown, scores, [])
         else
           (case tryBlock (queryOk e) walletInteractionCounts
                   \<lparr>committed = scores, txn = None, issued = []\<rparr> of
              (resolved, c) \<Rightarrow>
                if resolved then (Completed, committed c, issued c)
                else
                  (case client_query (queryOk e) ROLLBACK c of
                     (rolledBack, c') \<Rightarrow>
                       if rolledBack then (Completed, committed c', issued c')
                       else (Thrown, committed c', issued c'))))
      else (Completed, scores, []))"

subsection \<open>One cycle\<close>

text \<open>
  The state a cycle works on: the module variable \<^verbatim>\<open>lastProcessedSignature\<close> of the
  process, and the table in the database.
\<close>

record system =
  lastProcessedSignature :: "string option"
  wallet_scores :: table

text \<open>
  \<^verbatim>\<open>processNewTransactions\<close>, lines 50--172, with the statements it sent to the
  database. Every exception that reaches the outer \<^verbatim>\<open>catch\<close> is logged there and the
  function returns normally.
\<close>

definition processNewTransactions :: "env \<Rightarrow> system \<Rightarrow> system \<times> sql list" where
  "processNewTransactions e s =
     (case getSignaturesForAddress e (lastProcessedSignature s) of
        Inl error \<Rightarrow> (s, [])
      | Inr signaturesInfo \<Rightarrow>
          if signaturesInfo = [] then
            (if \<not> truthy (lastProcessedSignature s) \<and> length signaturesInfo > 0 then
               (case signaturesInfo of
                  [] \<Rightarrow> (s, [])
                | newest # _ \<Rightarrow> (s\<lparr>lastProcessedSignature := Some (signature newest)\<rparr>, []))
             else (s, []))
          else
            (let news = newSignaturesToProcess (lastProcessedSignature s) signaturesInfo
             in if news = [] then
                  (case signaturesInfo of
                     [] \<Rightarrow> (s, [])
                   | newest # _ \<Rightarrow> (s\<lparr>lastProcessedSignature := Some (signature newest)\<rparr>, []))
                else
                  (case fetchAndCount e news 0 [] of
                     Inl error \<Rightarrow> (s, [])
                   | Inr walletInteractionCounts \<Rightarrow>
                       (case mergeCounts e walletInteractionCounts (wallet_scores s) of
                          (Thrown, t, log) \<Rightarrow> (s\<lparr>wallet_scores := t\<rparr>, log)
                        | (Completed, t, log) \<Rightarrow>
                            (case news of
                               [] \<Rightarrow> (s\<lparr>wallet_scores := t\<rparr>, log)
                             | newest # _ \<Rightarrow>
                                 (s\<lparr>wallet_scores := t,
                                    lastProcessedSignature := Some (signature newest)\<rparr>, log))))))"

text \<open>
  Process start: the module initialiser sets \<^verbatim>\<open>lastProcessedSignature = null\<close>, and
  \<^verbatim>\<open>runIndexer\<close> loads nothing (the call of \<^verbatim>\<open>getLastProcessedSignatureFromDB\<close> is commented
  out, and that function returns \<^verbatim>\<open>null\<close> on both of its paths). The table is what the
  database holds.
\<close>

definition getLastProcessedSignatureFromDB :: "table \<Rightarrow> string option" where
  "getLastProcessedSignatureFromDB t = None"

definition processStart :: "table \<Rightarrow> system" where
  "processStart t = \<lparr>lastProcessedSignature = None, wallet_scores = t\<rparr>"

text \<open>A run of the process: one cycle per environment, in order.\<close>

fun cycles :: "env list \<Rightarrow> system \<Rightarrow> system" where
  "cycles [] s = s"
| "cycles (e # es) s = cycles es (fst (processNewTransactions e s))"


subsection \<open>The scheduler\<close>

text \<open>
  \<^verbatim>\<open>runIndexer\<close>, lines 174--182: \<^verbatim>\<open>await processNewTransactions()\<close> and then
  \<^verbatim>\<open>setInterval(processNewTransactions, CHECK_INTERVAL_MS)\<close>. A cycle is an async function:
  it is started by a call and settles later, when its last awaited answer has arrived.
  The scheduler's state counts the cycles started and settled and records whether the
  interval timer has been armed. Two things can happen to it: a running cycle settles,
  or (once the timer is armed) the interval elapses and the timer calls
  \<^verbatim>\<open>processNewTransactions\<close> again. The timer does not look at the promise the call returns.
\<close>

definition CHECK_INTERVAL_MS :: nat where
  "CHECK_INTERVAL_MS = 5 * 60 * 1000"

datatype event = CycleSettled | IntervalElapsed

record scheduler =
  started :: nat
  settled :: nat
  intervalArmed :: bool

definition runIndexer :: scheduler where
  "runIndexer = \<lparr>started = 1, settled = 0, intervalArmed = False\<rparr>"

fun sched_step :: "scheduler \<Rightarrow> event \<Rightarrow> scheduler" where
  "sched_step s CycleSettled =
     (if settled s < started s then s\<lparr>settled := settled s + 1, intervalArmed := True\<rparr> else s)"
| "sched_step s IntervalElapsed =
     (if intervalArmed s then s\<lparr>started := started s + 1\<rparr> else s)"

definition running :: "scheduler \<Rightarrow> nat" where
  "running s = started s - settled s"

subsection \<open>The score endpoint (src/server.js)\<close>

text \<open>
  \<^verbatim>\<open>GET /api/score/:walletAddress\<close>, lines 52--83. The constructor \<^verbatim>\<open>PublicKey\<close> belongs to
  the library \<^verbatim>\<open>@solana/web3.js\<close>; it is a parameter, \<open>Inl\<close> when it throws. The handler
  answers with a status and a JSON body; the model also returns the addresses it
  queried the database for.
\<close>

definition isValidSolanaAddress :: "(string \<Rightarrow> 'e + 'k) \<Rightarrow> string \<Rightarrow> bool" where
  "isValidSolanaAddress PublicKey address =
     (case PublicKey address of Inr _ \<Rightarrow> True | Inl _ \<Rightarrow> False)"

datatype body = ErrorBody string | ScoreBody string string int

text \<open>\<^verbatim>\<open>SELECT interaction_count FROM wallet_scores WHERE wallet_address = $1\<close>: the rows,
  or \<open>Inl\<close> when \<^verbatim>\<open>db.query\<close> rejects.\<close>

definition db_query :: "bool \<Rightarrow> table \<Rightarrow> string \<Rightarrow> unit + int list" where
  "db_query resolves t walletAddress =
     (if resolves then Inr (case t walletAddress of None \<Rightarrow> [] | Some c \<Rightarrow> [c]) else Inl ())"

definition getScore ::
  "(string \<Rightarrow> 'e + 'k) \<Rightarrow> string \<Rightarrow> bool \<Rightarrow> table \<Rightarrow> string \<Rightarrow> (nat \<times> body) \<times> string list" where
  "getScore PublicKey SOLANA_PROGRAM_ID_STRING resolves t walletAddress =
     (if walletAddress = [] then
        ((400, ErrorBody ''walletAddress parameter is required''), [])
      else if \<not> isValidSolanaAddress PublicKey walletAddress then
        ((400, ErrorBody ''Invalid wallet address format.''), [])
      else
        (case db_query resolves t walletAddress of
           Inl _ \<Rightarrow>
             ((500, ErrorBody ''Failed to fetch wallet score from database.''), [walletAddress])
         | Inr rows \<Rightarrow>
             (let interactionCount = (case rows of [] \<Rightarrow> 0 | row # _ \<Rightarrow> row)
              in ((200, ScoreBody walletAddress SOLANA_PROGRAM_ID_STRING interactionCount),
                  [walletAddress]))))"


subsection \<open>The specification's vocabulary\<close>

text \<open>
  The three conditions of the specification's extractor contract, in its own words, to
  compare \<open>countTransaction\<close> with. A body is what \<^verbatim>\<open>getParsedTransactions\<close> returned for
  one signature. (a) The transaction has no on-ledger execution error: its outcome is
  recorded and is not an error.
\<close>

definition spec_noExecutionError :: "ParsedTransactionWithMeta option \<Rightarrow> bool" where
  "spec_noExecutionError tx =
     (case tx of
        None \<Rightarrow> False
      | Some t \<Rightarrow> (case meta t of None \<Rightarrow> False | Some m \<Rightarrow> err m = None))"

text \<open>(b) At least one instruction of the transaction invokes the target program.\<close>

definition spec_invokesTarget :: "string \<Rightarrow> ParsedTransactionWithMeta option \<Rightarrow> bool" where
  "spec_invokesTarget target tx =
     (case tx of
        None \<Rightarrow> False
      | Some t \<Rightarrow>
          (case transaction t of
             None \<Rightarrow> False
           | Some tr \<Rightarrow> target \<in> set (map programId (instructions (message tr)))))"

text \<open>(c) The attributed wallet: the first account of the account list that is marked
  as a signer, if there is one.\<close>

definition spec_attributedWallet :: "ParsedTransactionWithMeta option \<Rightarrow> string option" where
  "spec_attributedWallet tx =
     (case tx of
        None \<Rightarrow> None
      | Some t \<Rightarrow>
          (case transaction t of
             None \<Rightarrow> None
           | Some tr \<Rightarrow>
               (case filter signer (accountKeys (message tr)) of
                  [] \<Rightarrow> None
                | a # _ \<Rightarrow> Some (pubkey a))))"

text \<open>The statements a merge of the given counts means to send, and the table with
  every one of the increments applied.\<close>

definition statements :: "counts \<Rightarrow> sql list" where
  "statements cs = BEGIN # map (\<lambda>(w, n). UPSERT w n) cs @ [COMMIT]"

definition increment :: "table \<Rightarrow> string \<times> int \<Rightarrow> table" where
  "increment t p = t(fst p \<mapsto> (case t (fst p) of None \<Rightarrow> snd p | Some old \<Rightarrow> old + snd p))"

definition applyAll :: "counts \<Rightarrow> table \<Rightarrow> table" where
  "applyAll cs t = foldl increment t cs"

text \<open>A statement that, if it changes a count, adds a positive number to it.\<close>

fun positiveIncrement :: "sql \<Rightarrow> bool" where
  "positiveIncrement (UPSERT w n) = (0 < n)"
| "positiveIncrement _ = True"

subsection \<open>Example data\<close>

text \<open>
  A transaction with one account, a signer, and one instruction; an environment of the
  target program \<open>P\<close> whose database client can always be had; and a ledger node that
  answers \<^verbatim>\<open>getSignaturesForAddress\<close> with the entries of its history (newest first)
  that are newer than \<^verbatim>\<open>until\<close>.
\<close>

definition txBy :: "string \<Rightarrow> string \<Rightarrow> string option \<Rightarrow> ParsedTransactionWithMeta" where
  "txBy wallet program error =
     \<lparr>transaction = Some \<lparr>message =
        \<lparr>accountKeys = [\<lparr>pubkey = wallet, signer = True, writable = True\<rparr>],
         instructions = [\<lparr>programId = program\<rparr>]\<rparr>\<rparr>,
      meta = Some \<lparr>err = error\<rparr>\<rparr>"

definition exampleEnv ::
  "(string option \<Rightarrow> rpc_error + ConfirmedSignatureInfo list) \<Rightarrow>
   (string list \<Rightarrow> rpc_error + ParsedTransactionWithMeta option list) \<Rightarrow> (sql \<Rightarrow> bool) \<Rightarrow> env" where
  "exampleEnv sigs txs ok =
     \<lparr>SOLANA_PROGRAM_ID = ''P'', getSignaturesForAddress = sigs, getParsedTransactions = txs,
      getClientOk = True, queryOk = ok\<rparr>"

definition newerThan ::
  "ConfirmedSignatureInfo list \<Rightarrow> string option \<Rightarrow> rpc_error + ConfirmedSignatureInfo list" where
  "newerThan ledger until = Inr (takeWhile (\<lambda>s. Some (signature s) \<noteq> until) ledger)"

section \<open>The novelty filter\<close>

lemma findIndexFrom_none: "\<forall>x\<in>set xs. \<not> P x \<Longrightarrow> findIndexFrom P i xs = - 1"
  by (induction xs arbitrary: i) auto

lemma findIndexFrom_first:
  "\<forall>x\<in>set pre. \<not> P x \<Longrightarrow> P x \<Longrightarrow> findIndexFrom P i (pre @ x # post) = i + int (length pre)"
  by (induction pre arbitrary: i) auto

lemma split_at_first:
  assumes "k < length w" and "\<forall>j<k. \<not> P (w ! j)"
  shows "w = take k w @ (w ! k) # drop (Suc k) w \<and> (\<forall>x\<in>set (take k w). \<not> P x)"
proof
  show "w = take k w @ (w ! k) # drop (Suc k) w"
    using assms(1) by (simp add: id_take_nth_drop)
  show "\<forall>x\<in>set (take k w). \<not> P x"
  proof
    fix x assume "x \<in> set (take k w)"
    then obtain j where "j < length (take k w)" "take k w ! j = x"
      by (auto simp: in_set_conv_nth)
    then show "\<not> P x" using assms by auto
  qed
qed

lemma nsp_absent: "\<not> truthy cp \<Longrightarrow> newSignaturesToProcess cp w = w"
  by (simp add: newSignaturesToProcess_def)

lemma nsp_not_found:
  "c \<notin> signature ` set w \<Longrightarrow> newSignaturesToProcess (Some c) w = w"
proof -
  assume "c \<notin> signature ` set w"
  then have "\<forall>x\<in>set w. \<not> (Some (signature x) = Some c)" by auto
  then have "findIndexFrom (\<lambda>s. Some (signature s) = Some c) 0 w = - 1"
    by (rule findIndexFrom_none)
  then show ?thesis
    by (simp add: newSignaturesToProcess_def findIndex_def)
qed

lemma nsp_found:
  assumes "c \<noteq> []" "k < length w" "signature (w ! k) = c" "\<forall>j<k. signature (w ! j) \<noteq> c"
  shows "newSignaturesToProcess (Some c) w = take k w"
proof -
  let ?P = "\<lambda>s. Some (signature s) = Some c"
  have sp: "w = take k w @ (w ! k) # drop (Suc k) w" and no: "\<forall>x\<in>set (take k w). \<not> ?P x"
    using split_at_first [of k w ?P] assms by auto
  have "findIndexFrom ?P 0 (take k w @ (w ! k) # drop (Suc k) w) = 0 + int (length (take k w))"
    by (rule findIndexFrom_first [OF no]) (simp add: assms)
  then have "findIndex ?P w = int k"
    using sp assms(2) by (simp add: findIndex_def)
  then show ?thesis
    using assms(1) by (simp add: newSignaturesToProcess_def truthy_def slice_def)
qed

lemma distinct_first_occurrence:
  assumes "distinct (map signature w)" "k < length w" "signature (w ! k) = c"
  shows "\<forall>j<k. signature (w ! j) \<noteq> c"
proof (intro allI impI)
  fix j assume jk: "j < k"
  show "signature (w ! j) \<noteq> c"
  proof
    assume "signature (w ! j) = c"
    then have "map signature w ! j = map signature w ! k"
      using assms(2,3) jk by simp
    moreover have "j < length (map signature w)" "k < length (map signature w)"
      using assms(2) jk by simp_all
    ultimately have "j = k"
      using nth_eq_iff_index_eq [OF assms(1)] by blast
    then show False using jk by simp
  qed
qed

text \<open>
  Claim C4. An identifier is a ledger signature: a non-empty string, unique within a
  fetched window. For every window and every checkpoint, the filter returns the prefix
  of the window that is strictly newer than the checkpoint, in the window's order: with
  no checkpoint the result is the whole window, and so it is when the checkpoint's
  identifier does not occur in the window; when the checkpoint's identifier occurs at
  index \<open>k\<close>, the result is the entries at indices \<open>[0, k)\<close>.
\<close>

theorem newSignaturesToProcess_prefix:
  "newSignaturesToProcess None w = w \<and>
   (c \<notin> signature ` set w \<longrightarrow> newSignaturesToProcess (Some c) w = w) \<and>
   (c \<noteq> [] \<and> distinct (map signature w) \<and> k < length w \<and> signature (w ! k) = c
      \<longrightarrow> newSignaturesToProcess (Some c) w = take k w)"
  using nsp_found [of c k w] nsp_not_found [of c w] distinct_first_occurrence [of w k c]
  by (simp add: nsp_absent truthy_def)

text \<open>The specification's example: window \<open>[s5, s4, s3, s2, s1]\<close>, checkpoint \<open>s3\<close>.\<close>

theorem newSignaturesToProcess_prefix_witness:
  "newSignaturesToProcess (Some ''s3'')
     [\<lparr>signature = ''s5'', slot = 5\<rparr>, \<lparr>signature = ''s4'', slot = 4\<rparr>,
      \<lparr>signature = ''s3'', slot = 3\<rparr>, \<lparr>signature = ''s2'', slot = 2\<rparr>,
      \<lparr>signature = ''s1'', slot = 1\<rparr>]
   = [\<lparr>signature = ''s5'', slot = 5\<rparr>, \<lparr>signature = ''s4'', slot = 4\<rparr>]"
  using newSignaturesToProcess_prefix [of
     "[\<lparr>signature = ''s5'', slot = 5\<rparr>, \<lparr>signature = ''s4'', slot = 4\<rparr>,
      \<lparr>signature = ''s3'', slot = 3\<rparr>, \<lparr>signature = ''s2'', slot = 2\<rparr>,
      \<lparr>signature = ''s1'', slot = 1\<rparr>]" "''s3''" 2]
  by simp

section \<open>The interaction extractor\<close>

lemma Map_get_set: "Map_get (Map_set m k v) k' = (if k' = k then Some v else Map_get m k')"
  by (induction m) (auto simp: Map_get_def)

lemma Map_set_changes: "Map_set m k (get_or_0 m k + 1) \<noteq> m"
proof
  assume eq: "Map_set m k (get_or_0 m k + 1) = m"
  have "Map_get (Map_set m k (get_or_0 m k + 1)) k = Some (get_or_0 m k + 1)"
    by (simp add: Map_get_set)
  then have "Map_get m k = Some (get_or_0 m k + 1)"
    using eq by simp
  then show False
    by (cases "Map_get m k") (auto simp: get_or_0_def split: if_splits)
qed

lemma get_or_0_set:
  "get_or_0 (Map_set m k (get_or_0 m k + 1)) k' = get_or_0 m k' + (if k' = k then 1 else 0)"
  by (simp add: get_or_0_def Map_get_set split: option.splits)

lemma find_filter: "find P xs = (case filter P xs of [] \<Rightarrow> None | a # _ \<Rightarrow> Some a)"
  by (induction xs) auto

lemma countTransaction_spec:
  "countTransaction target cs tx =
     (case spec_attributedWallet tx of
        None \<Rightarrow> cs
      | Some w \<Rightarrow>
          if spec_noExecutionError tx \<and> spec_invokesTarget target tx
          then Map_set cs w (get_or_0 cs w + 1) else cs)"
  by (auto simp: countTransaction_def spec_attributedWallet_def spec_noExecutionError_def
        spec_invokesTarget_def find_filter list_ex_iff Let_def
      split: option.splits list.splits)

text \<open>
  Claim C5. One fetched body changes the counts if and only if (a) the transaction has no
  execution error, (b) one of its instructions invokes the target program and (c) its
  account list has a signer; it then adds one to the count of the first signer, and it
  never changes the count of any other wallet. In particular a transaction with an
  execution error is not counted, whatever its instructions invoke, and a missing body
  or a body without a signer leaves the counts as they are; neither is an error.
\<close>

theorem countTransaction_iff:
  "(countTransaction target cs tx \<noteq> cs \<longleftrightarrow>
      spec_noExecutionError tx \<and> spec_invokesTarget target tx \<and> spec_attributedWallet tx \<noteq> None) \<and>
   get_or_0 (countTransaction target cs tx) w =
      get_or_0 cs w +
        (if spec_noExecutionError tx \<and> spec_invokesTarget target tx \<and> spec_attributedWallet tx = Some w
         then 1 else 0) \<and>
   (\<not> spec_noExecutionError tx \<longrightarrow> countTransaction target cs tx = cs) \<and>
   (tx = None \<or> spec_attributedWallet tx = None \<longrightarrow> countTransaction target cs tx = cs)"
  by (auto simp: countTransaction_spec Map_set_changes get_or_0_set spec_attributedWallet_def
      split: option.splits)

text \<open>A failed transaction of wallet \<open>W\<close> that invokes the target program \<open>P\<close> is not
  counted; the same transaction without the error is counted once for \<open>W\<close>.\<close>

theorem countTransaction_iff_witness:
  "countTransaction ''P'' [] (Some (txBy ''W'' ''P'' (Some ''InstructionError''))) = [] \<and>
   get_or_0 (countTransaction ''P'' [] (Some (txBy ''W'' ''P'' None))) ''W'' = 1"
  using countTransaction_iff [of "''P''" "[]" "Some (txBy ''W'' ''P'' (Some ''InstructionError''))" "''W''"]
    countTransaction_iff [of "''P''" "[]" "Some (txBy ''W'' ''P'' None)" "''W''"]
  by (simp add: spec_noExecutionError_def spec_invokesTarget_def spec_attributedWallet_def
      txBy_def get_or_0_def Map_get_def)


section \<open>The merge committer\<close>

lemma upsert_increment: "upsert w n t = Some t' \<Longrightarrow> t' = increment t (w, n)"
  by (cases "t w") (auto simp: upsert_def increment_def Let_def split: if_splits)

lemma client_query_upsert_txn:
  assumes "txn c = Some w0" and "client_query ok (UPSERT w n) c = (r, c')"
  shows "committed c' = committed c \<and> issued c' = issued c @ [UPSERT w n] \<and>
         (if r then txn c' = Some (increment w0 (w, n)) \<and> ok (UPSERT w n) else txn c' = Some w0)"
  using assms
  by (auto simp: client_query_def Let_def dest: upsert_increment split: if_splits option.splits)

lemma upsertAll_txn:
  assumes "txn c = Some w0" and "upsertAll ok cs c = (r, c')"
  shows "committed c' = committed c \<and> txn c' \<noteq> None \<and>
         set (issued c') \<subseteq> set (issued c) \<union> set (map (\<lambda>(w, n). UPSERT w n) cs) \<and>
         (r \<longrightarrow> txn c' = Some (applyAll cs w0) \<and>
                issued c' = issued c @ map (\<lambda>(w, n). UPSERT w n) cs \<and>
                list_all ok (map (\<lambda>(w, n). UPSERT w n) cs))"
  using assms
proof (induction cs arbitrary: c w0)
  case Nil
  then show ?case by (simp add: applyAll_def)
next
  case (Cons p cs)
  obtain w n where p: "p = (w, n)" by (cases p)
  obtain r1 c1 where q: "client_query ok (UPSERT w n) c = (r1, c1)"
    by (cases "client_query ok (UPSERT w n) c")
  note f = client_query_upsert_txn [OF Cons.prems(1) q]
  show ?case
  proof (cases r1)
    case False
    then have "r = False" "c' = c1" using Cons.prems(2) p q by auto
    then show ?thesis using f False Cons.prems(1) p by auto
  next
    case True
    then have rest: "upsertAll ok cs c1 = (r, c')" using Cons.prems(2) p q by simp
    have t1: "txn c1 = Some (increment w0 (w, n))" using f True by simp
    note ih = Cons.IH [OF t1 rest]
    show ?thesis
      using ih f True p by (auto simp: applyAll_def)
  qed
qed

lemma tryBlock_fresh:
  assumes "tryBlock ok cs \<lparr>committed = t, txn = None, issued = []\<rparr> = (r, c)"
  shows "set (issued c) \<subseteq> set (statements cs) \<and>
         (if r then committed c = applyAll cs t \<and> issued c = statements cs \<and>
                    list_all ok (statements cs)
          else committed c = t)"
proof -
  let ?c0 = "\<lparr>committed = t, txn = None, issued = []\<rparr>"
  obtain r1 c1 where b: "client_query ok BEGIN ?c0 = (r1, c1)"
    by (cases "client_query ok BEGIN ?c0")
  have b1: "committed c1 = t \<and> issued c1 = [BEGIN] \<and> (r1 \<longrightarrow> txn c1 = Some t \<and> ok BEGIN)"
    using b by (auto simp: client_query_def Let_def split: if_splits)
  show ?thesis
  proof (cases r1)
    case False
    then have "r = False" "c = c1" using assms b by (auto simp: tryBlock_def)
    then show ?thesis using b1 by (simp add: statements_def)
  next
    case True
    obtain r2 c2 where u: "upsertAll ok cs c1 = (r2, c2)"
      by (cases "upsertAll ok cs c1")
    have t1: "txn c1 = Some t" using b1 True by simp
    note f = upsertAll_txn [OF t1 u]
    show ?thesis
    proof (cases r2)
      case False
      then have "r = False" "c = c2" using assms b u True by (auto simp: tryBlock_def)
      then show ?thesis using f b1 by (auto simp: statements_def)
    next
      case r2: True
      then have cm: "client_query ok COMMIT c2 = (r, c)"
        using assms b u True by (simp add: tryBlock_def)
      show ?thesis
        using cm f r2 b1 True
        by (auto simp: client_query_def Let_def statements_def split: if_splits option.splits)
    qed
  qed
qed

lemma mergeCounts_cases:
  assumes "mergeCounts e cs t = (r, t', log)"
  shows "set log \<subseteq> insert ROLLBACK (set (statements cs)) \<and>
         (t' = t \<or> (t' = applyAll cs t \<and> r = Completed \<and> log = statements cs \<and>
                    list_all (queryOk e) (statements cs)))"
proof (cases "cs = [] \<or> \<not> getClientOk e")
  case True
  then show ?thesis using assms by (auto simp: mergeCounts_def split: if_splits)
next
  case False
  let ?c0 = "\<lparr>committed = t, txn = None, issued = []\<rparr>"
  obtain r1 c1 where tb: "tryBlock (queryOk e) cs ?c0 = (r1, c1)"
    by (cases "tryBlock (queryOk e) cs ?c0")
  note f = tryBlock_fresh [OF tb]
  show ?thesis
  proof (cases r1)
    case True
    then show ?thesis using assms False tb f by (auto simp: mergeCounts_def)
  next
    case r1: False
    obtain r2 c2 where rb: "client_query (queryOk e) ROLLBACK c1 = (r2, c2)"
      by (cases "client_query (queryOk e) ROLLBACK c1")
    have "committed c2 = committed c1 \<and> set (issued c2) = insert ROLLBACK (set (issued c1))"
      using rb by (auto simp: client_query_def Let_def split: if_splits)
    then show ?thesis
      using assms False tb f r1 rb by (auto simp: mergeCounts_def split: if_splits)
  qed
qed

text \<open>
  Claim C6. The merge is all or nothing. With an empty mapping it sends no statement to
  the database and leaves the table as it is. With any mapping, the table afterwards
  is either the table before, or the table with every increment of the mapping applied,
  and the latter only when \<^verbatim>\<open>BEGIN\<close>, every upsert and \<^verbatim>\<open>COMMIT\<close> were sent and resolved. So
  when a statement rejects, or a \<^verbatim>\<open>ROLLBACK\<close> was sent, the table is the table before: no
  part of the increments is persisted.
\<close>

theorem merge_all_or_nothing:
  "mergeCounts e [] t = (Completed, t, []) \<and>
   (fst (snd (mergeCounts e cs t)) = t \<or>
    fst (snd (mergeCounts e cs t)) = applyAll cs t \<and>
    snd (snd (mergeCounts e cs t)) = statements cs \<and> list_all (queryOk e) (statements cs)) \<and>
   (ROLLBACK \<in> set (snd (snd (mergeCounts e cs t))) \<or> \<not> list_all (queryOk e) (statements cs)
      \<longrightarrow> fst (snd (mergeCounts e cs t)) = t)"
proof -
  obtain r t' log where m: "mergeCounts e cs t = (r, t', log)"
    by (cases "mergeCounts e cs t")
  have "ROLLBACK \<notin> set (statements cs)"
    by (auto simp: statements_def)
  then show ?thesis
    using mergeCounts_cases [OF m] m by (auto simp: mergeCounts_def)
qed

text \<open>The upsert of the second wallet rejects: the increment of the first wallet is not
  persisted either. With no counts, nothing is sent.\<close>

theorem merge_all_or_nothing_witness:
  "fst (snd (mergeCounts (exampleEnv (newerThan []) (\<lambda>sigs. Inr []) (\<lambda>q. q \<noteq> UPSERT ''V'' 1))
      [(''W'', 2), (''V'', 1)] Map.empty)) = Map.empty \<and>
   mergeCounts (exampleEnv (newerThan []) (\<lambda>sigs. Inr []) (\<lambda>q. q \<noteq> UPSERT ''V'' 1))
      [] Map.empty = (Completed, Map.empty, [])"
  using merge_all_or_nothing [of "exampleEnv (newerThan []) (\<lambda>sigs. Inr []) (\<lambda>q. q \<noteq> UPSERT ''V'' 1)"
      Map.empty "[(''W'', 2), (''V'', 1)]"]
  by (simp add: statements_def exampleEnv_def)

section \<open>Counts only grow\<close>

lemma set_Map_set: "set (Map_set m k v) \<subseteq> insert (k, v) (set m)"
proof (induction m)
  case Nil
  show ?case by simp
next
  case (Cons p m)
  obtain k' v' where p: "p = (k', v')" by (cases p)
  show ?case
  proof (cases "k' = k")
    case True
    then show ?thesis using p by auto
  next
    case False
    then show ?thesis using p Cons.IH by auto
  qed
qed

lemma Map_set_positive:
  "\<forall>p\<in>set m. 0 < snd p \<Longrightarrow> 0 < v \<Longrightarrow> \<forall>p\<in>set (Map_set m k v). 0 < snd p"
  using set_Map_set [of m k v] by fastforce

lemma get_or_0_nonneg: "\<forall>p\<in>set m. 0 < snd p \<Longrightarrow> 0 \<le> get_or_0 m k"
proof -
  assume a: "\<forall>p\<in>set m. 0 < snd p"
  show ?thesis
  proof (cases "map_of m k")
    case None
    then show ?thesis by (simp add: get_or_0_def Map_get_def)
  next
    case (Some c)
    then have "(k, c) \<in> set m" by (rule map_of_SomeD)
    then have "0 < c" using a by auto
    then show ?thesis using Some by (simp add: get_or_0_def Map_get_def)
  qed
qed

lemma countTransaction_positive:
  assumes "\<forall>p\<in>set m. 0 < snd p"
  shows "\<forall>p\<in>set (countTransaction target m tx). 0 < snd p"
proof -
  have "\<And>k. \<forall>p\<in>set (Map_set m k (get_or_0 m k + 1)). 0 < snd p"
  proof -
    fix k
    have "0 < get_or_0 m k + 1" using get_or_0_nonneg [OF assms, of k] by simp
    then show "\<forall>p\<in>set (Map_set m k (get_or_0 m k + 1)). 0 < snd p"
      by (rule Map_set_positive [OF assms])
  qed
  then show ?thesis
    using assms
    by (simp add: countTransaction_def Let_def split: option.splits)
qed

lemma foldl_countTransaction_positive:
  "\<forall>p\<in>set m. 0 < snd p \<Longrightarrow> \<forall>p\<in>set (foldl (countTransaction target) m txs). 0 < snd p"
proof (induction txs arbitrary: m)
  case Nil
  then show ?case by simp
next
  case (Cons tx txs)
  have "\<forall>p\<in>set (countTransaction target m tx). 0 < snd p"
    using Cons.prems by (rule countTransaction_positive)
  then have "\<forall>p\<in>set (foldl (countTransaction target) (countTransaction target m tx) txs). 0 < snd p"
    by (rule Cons.IH)
  then show ?case by simp
qed

lemma fetchAndCount_positive:
  "\<forall>p\<in>set m. 0 < snd p \<Longrightarrow> fetchAndCount e news i m = Inr cs \<Longrightarrow> \<forall>p\<in>set cs. 0 < snd p"
proof (induction e news i m rule: fetchAndCount.induct)
  case (1 e news i m)
  show ?case
  proof (cases "i < length news")
    case False
    then show ?thesis using "1.prems" by (simp add: fetchAndCount.simps)
  next
    case True
    let ?batch = "map signature (slice news i (i + BATCH_FETCH_SIZE))"
    show ?thesis
    proof (cases "?batch = []")
      case e: True
      then have "fetchAndCount e news (i + BATCH_FETCH_SIZE) m = Inr cs"
        using "1.prems"(2) True by (subst (asm) fetchAndCount.simps) simp
      then show ?thesis using "1.IH"(1) [OF True refl e "1.prems"(1)] by simp
    next
      case ne: False
      show ?thesis
      proof (cases "getParsedTransactions e ?batch")
        case (Inl a)
        then show ?thesis
          using "1.prems"(2) True ne by (subst (asm) fetchAndCount.simps) simp
      next
        case (Inr txs)
        let ?m' = "foldl (countTransaction (SOLANA_PROGRAM_ID e)) m txs"
        have "fetchAndCount e news (i + BATCH_FETCH_SIZE) ?m' = Inr cs"
          using "1.prems"(2) True ne Inr by (subst (asm) fetchAndCount.simps) simp
        moreover have "\<forall>p\<in>set ?m'. 0 < snd p"
          using "1.prems"(1) by (rule foldl_countTransaction_positive)
        ultimately show ?thesis
          using "1.IH"(2) [OF True refl ne Inr] by simp
      qed
    qed
  qed
qed

lemma increment_Some:
  "0 < snd p \<Longrightarrow> t w = Some c \<Longrightarrow> \<exists>c'. increment t p w = Some c' \<and> c \<le> c'"
  by (auto simp: increment_def)

lemma increment_None:
  "0 < snd p \<Longrightarrow> t w = None \<Longrightarrow>
     increment t p w = None \<or> (\<exists>c'. increment t p w = Some c' \<and> 0 < c')"
  by (auto simp: increment_def)

lemma applyAll_Some:
  "\<forall>p\<in>set cs. 0 < snd p \<Longrightarrow> t w = Some c \<Longrightarrow> \<exists>c'. applyAll cs t w = Some c' \<and> c \<le> c'"
proof (induction cs arbitrary: t c)
  case Nil
  then show ?case by (simp add: applyAll_def)
next
  case (Cons p cs)
  obtain c1 where c1: "increment t p w = Some c1" "c \<le> c1"
    using increment_Some [of p t w c] Cons.prems by auto
  obtain c' where "applyAll cs (increment t p) w = Some c'" "c1 \<le> c'"
    using Cons.IH [of "increment t p" c1] c1(1) Cons.prems(1) by auto
  then show ?case using c1(2) by (auto simp: applyAll_def)
qed

lemma applyAll_None:
  "\<forall>p\<in>set cs. 0 < snd p \<Longrightarrow> t w = None \<Longrightarrow>
     applyAll cs t w = None \<or> (\<exists>c'. applyAll cs t w = Some c' \<and> 0 < c')"
proof (induction cs arbitrary: t)
  case Nil
  then show ?case by (simp add: applyAll_def)
next
  case (Cons p cs)
  have pos: "\<forall>p\<in>set cs. 0 < snd p" using Cons.prems(1) by simp
  show ?case
  proof (cases "increment t p w")
    case None
    then show ?thesis using Cons.IH [of "increment t p"] pos by (simp add: applyAll_def)
  next
    case (Some c1)
    then have "0 < c1" using increment_None [of p t w] Cons.prems by auto
    moreover obtain c' where "applyAll cs (increment t p) w = Some c'" "c1 \<le> c'"
      using applyAll_Some [of cs "increment t p" w c1] pos Some by auto
    ultimately show ?thesis by (auto simp: applyAll_def)
  qed
qed

text \<open>What one cycle does to the table: nothing, or all increments of positive counts.\<close>

lemma cycle_table:
  "wallet_scores (fst (processNewTransactions e s)) = wallet_scores s \<or>
   (\<exists>cs. (\<forall>p\<in>set cs. 0 < snd p) \<and>
      wallet_scores (fst (processNewTransactions e s)) = applyAll cs (wallet_scores s))"
proof (cases "getSignaturesForAddress e (lastProcessedSignature s)")
  case (Inl a)
  then show ?thesis by (simp add: processNewTransactions_def)
next
  case (Inr w)
  let ?news = "newSignaturesToProcess (lastProcessedSignature s) w"
  show ?thesis
  proof (cases "w = [] \<or> ?news = []")
    case True
    then show ?thesis using Inr
      by (auto simp: processNewTransactions_def split: list.splits)
  next
    case False
    show ?thesis
    proof (cases "fetchAndCount e ?news 0 []")
      case (Inl a)
      then show ?thesis using Inr False by (simp add: processNewTransactions_def)
    next
      case cs: (Inr cs)
      have pos: "\<forall>p\<in>set cs. 0 < snd p"
        using fetchAndCount_positive [OF _ cs] by simp
      obtain r t' log where m: "mergeCounts e cs (wallet_scores s) = (r, t', log)"
        by (cases "mergeCounts e cs (wallet_scores s)")
      have "wallet_scores (fst (processNewTransactions e s)) = t'"
        using Inr False cs m
        by (cases r) (auto simp: processNewTransactions_def split: list.splits)
      then show ?thesis
        using mergeCounts_cases [OF m] pos by auto
    qed
  qed
qed

lemma cycle_log_positive: "list_all positiveIncrement (snd (processNewTransactions e s))"
proof (cases "getSignaturesForAddress e (lastProcessedSignature s)")
  case (Inl a)
  then show ?thesis by (simp add: processNewTransactions_def)
next
  case (Inr w)
  let ?news = "newSignaturesToProcess (lastProcessedSignature s) w"
  show ?thesis
  proof (cases "w = [] \<or> ?news = []")
    case True
    then show ?thesis using Inr
      by (auto simp: processNewTransactions_def split: list.splits)
  next
    case False
    show ?thesis
    proof (cases "fetchAndCount e ?news 0 []")
      case (Inl a)
      then show ?thesis using Inr False by (simp add: processNewTransactions_def)
    next
      case cs: (Inr cs)
      have pos: "\<forall>p\<in>set cs. 0 < snd p"
        using fetchAndCount_positive [OF _ cs] by simp
      obtain r t' log where m: "mergeCounts e cs (wallet_scores s) = (r, t', log)"
        by (cases "mergeCounts e cs (wallet_scores s)")
      have l: "snd (processNewTransactions e s) = log"
        using Inr False cs m
        by (cases r) (auto simp: processNewTransactions_def split: list.splits)
      have "\<forall>q\<in>set (statements cs). positiveIncrement q"
        using pos by (auto simp: statements_def)
      then have "\<forall>q\<in>set log. positiveIncrement q"
        using mergeCounts_cases [OF m] by auto
      then show ?thesis using l by (simp add: list_all_iff)
    qed
  qed
qed

lemma cycle_Some:
  "wallet_scores s w = Some c \<Longrightarrow>
     \<exists>c'. wallet_scores (fst (processNewTransactions e s)) w = Some c' \<and> c \<le> c'"
proof -
  assume a: "wallet_scores s w = Some c"
  from cycle_table [of e s] show ?thesis
  proof
    assume "wallet_scores (fst (processNewTransactions e s)) = wallet_scores s"
    then show ?thesis using a by simp
  next
    assume "\<exists>cs. (\<forall>p\<in>set cs. 0 < snd p) \<and>
      wallet_scores (fst (processNewTransactions e s)) = applyAll cs (wallet_scores s)"
    then obtain cs where cs: "\<forall>p\<in>set cs. 0 < snd p"
      "wallet_scores (fst (processNewTransactions e s)) = applyAll cs (wallet_scores s)"
      by auto
    show ?thesis
      using applyAll_Some [of cs "wallet_scores s" w c] cs a by simp
  qed
qed

lemma cycle_None:
  "wallet_scores s w = None \<Longrightarrow>
     wallet_scores (fst (processNewTransactions e s)) w = None \<or>
     (\<exists>c'. wallet_scores (fst (processNewTransactions e s)) w = Some c' \<and> 0 < c')"
proof -
  assume a: "wallet_scores s w = None"
  from cycle_table [of e s] show ?thesis
  proof
    assume "wallet_scores (fst (processNewTransactions e s)) = wallet_scores s"
    then show ?thesis using a by simp
  next
    assume "\<exists>cs. (\<forall>p\<in>set cs. 0 < snd p) \<and>
      wallet_scores (fst (processNewTransactions e s)) = applyAll cs (wallet_scores s)"
    then obtain cs where cs: "\<forall>p\<in>set cs. 0 < snd p"
      "wallet_scores (fst (processNewTransactions e s)) = applyAll cs (wallet_scores s)"
      by auto
    show ?thesis
      using applyAll_None [of cs "wallet_scores s" w] cs a by simp
  qed
qed

lemma cycles_Some:
  "wallet_scores s w = Some c \<Longrightarrow> \<exists>c'. wallet_scores (cycles es s) w = Some c' \<and> c \<le> c'"
proof (induction es arbitrary: s c)
  case Nil
  then show ?case by simp
next
  case (Cons e es)
  obtain c1 where c1: "wallet_scores (fst (processNewTransactions e s)) w = Some c1" "c \<le> c1"
    using cycle_Some [OF Cons.prems] by auto
  obtain c' where "wallet_scores (cycles es (fst (processNewTransactions e s))) w = Some c'" "c1 \<le> c'"
    using Cons.IH [OF c1(1)] by auto
  then show ?case using c1(2) by auto
qed

lemma cycles_None:
  "wallet_scores s w = None \<Longrightarrow>
     wallet_scores (cycles es s) w = None \<or> (\<exists>c'. wallet_scores (cycles es s) w = Some c' \<and> 0 < c')"
proof (induction es arbitrary: s)
  case Nil
  then show ?case by simp
next
  case (Cons e es)
  let ?s1 = "fst (processNewTransactions e s)"
  show ?case
  proof (cases "wallet_scores ?s1 w")
    case None
    then show ?thesis using Cons.IH [OF None] by simp
  next
    case (Some c1)
    then have "0 < c1" using cycle_None [OF Cons.prems, of e] by auto
    moreover obtain c' where "wallet_scores (cycles es ?s1) w = Some c'" "c1 \<le> c'"
      using cycles_Some [OF Some] by auto
    ultimately show ?thesis by auto
  qed
qed

text \<open>
  Claim C9. Over any sequence of cycles, a wallet's persisted count never decreases and
  its row is never removed: a row that holds \<open>c\<close> holds some \<open>c' \<ge> c\<close> afterwards, and
  a row that the cycles create holds a positive count. Every statement a cycle sends
  that touches a count is an upsert of a positive increment.
\<close>

theorem interaction_count_monotone:
  "(wallet_scores s w = Some c \<longrightarrow>
      (\<exists>c'. wallet_scores (cycles es s) w = Some c' \<and> c \<le> c')) \<and>
   (wallet_scores s w = None \<longrightarrow>
      wallet_scores (cycles es s) w = None \<or>
      (\<exists>c'. wallet_scores (cycles es s) w = Some c' \<and> 0 < c')) \<and>
   list_all positiveIncrement (snd (processNewTransactions e s))"
  using cycles_Some [of s w c es] cycles_None [of s w es] cycle_log_positive [of e s]
  by simp

text \<open>Wallet \<open>W\<close> has count 5 and one new transaction.\<close>

theorem interaction_count_monotone_witness:
  "(\<exists>c'. wallet_scores
      (cycles
         [exampleEnv (newerThan [\<lparr>signature = ''s1'', slot = 1\<rparr>])
            (\<lambda>sigs. Inr (map (\<lambda>_. Some (txBy ''W'' ''P'' None)) sigs)) (\<lambda>q. True)]
         \<lparr>lastProcessedSignature = None, wallet_scores = [''W'' \<mapsto> 5]\<rparr>) ''W'' = Some c' \<and> 5 \<le> c') \<and>
   list_all positiveIncrement
     (snd (processNewTransactions
        (exampleEnv (newerThan [\<lparr>signature = ''s1'', slot = 1\<rparr>])
            (\<lambda>sigs. Inr (map (\<lambda>_. Some (txBy ''W'' ''P'' None)) sigs)) (\<lambda>q. True))
        \<lparr>lastProcessedSignature = None, wallet_scores = [''W'' \<mapsto> 5]\<rparr>))"
  using interaction_count_monotone [of
      "\<lparr>lastProcessedSignature = None, wallet_scores = [''W'' \<mapsto> 5]\<rparr>" "''W''" 5
      "[exampleEnv (newerThan [\<lparr>signature = ''s1'', slot = 1\<rparr>])
            (\<lambda>sigs. Inr (map (\<lambda>_. Some (txBy ''W'' ''P'' None)) sigs)) (\<lambda>q. True)]"
      "exampleEnv (newerThan [\<lparr>signature = ''s1'', slot = 1\<rparr>])
            (\<lambda>sigs. Inr (map (\<lambda>_. Some (txBy ''W'' ''P'' None)) sigs)) (\<lambda>q. True)"]
  by simp

section \<open>Cycles that change nothing, or only the checkpoint\<close>

lemma slice_nonempty: "i < length xs \<Longrightarrow> 0 < n \<Longrightarrow> slice xs i (i + n) \<noteq> []"
  by (simp add: slice_def)

lemma fetchAndCount_fails:
  assumes "i < length news" "j \<le> i" "BATCH_FETCH_SIZE dvd (i - j)"
    and "getParsedTransactions e (map signature (slice news i (i + BATCH_FETCH_SIZE))) = Inl x"
  shows "\<exists>y. fetchAndCount e news j c = Inl y"
  using assms
proof (induction e news j c rule: fetchAndCount.induct)
  case (1 e news j c)
  let ?batch = "map signature (slice news j (j + BATCH_FETCH_SIZE))"
  have jn: "j < length news" using "1.prems" by simp
  have ne: "?batch \<noteq> []"
    using jn by (simp add: slice_nonempty BATCH_FETCH_SIZE_def)
  show ?case
  proof (cases "getParsedTransactions e ?batch")
    case (Inl a)
    then show ?thesis
      using jn ne by (subst fetchAndCount.simps) simp
  next
    case (Inr txs)
    have "j \<noteq> i" using Inr "1.prems"(4) by auto
    then have lt: "j < i" using "1.prems"(2) by simp
    obtain q where q: "i - j = BATCH_FETCH_SIZE * q"
      using "1.prems"(3) by (auto simp: dvd_def)
    have "q \<noteq> 0" using q lt by (cases q) auto
    then have le: "j + BATCH_FETCH_SIZE \<le> i"
      using q lt by (cases q) auto
    have dv: "BATCH_FETCH_SIZE dvd (i - (j + BATCH_FETCH_SIZE))"
      using "1.prems"(3) le
      by (metis add.commute diff_diff_left dvd_diff_nat dvd_refl)
    have "\<exists>y. fetchAndCount e news (j + BATCH_FETCH_SIZE)
               (foldl (countTransaction (SOLANA_PROGRAM_ID e)) c txs) = Inl y"
      using "1.IH"(2) [OF jn refl ne Inr "1.prems"(1) le dv "1.prems"(4)] .
    then show ?thesis
      using jn ne Inr by (subst fetchAndCount.simps) simp
  qed
qed

text \<open>
  Claim C7. When the window was fetched and \<^verbatim>\<open>getParsedTransactions\<close> throws for some
  chunk of the signatures to process (the chunk that starts at index \<open>i\<close>, a multiple of
  the batch size), the cycle ends with the checkpoint and the table as they were and
  has sent nothing to the database: the counts gathered from earlier chunks are
  dropped. The next cycle starts from the same state, so it asks for the same window.
\<close>

theorem rpc_error_aborts_cycle:
  assumes "getSignaturesForAddress e (lastProcessedSignature s) = Inr w"
    and "i < length (newSignaturesToProcess (lastProcessedSignature s) w)"
    and "BATCH_FETCH_SIZE dvd i"
    and "getParsedTransactions e
           (map signature
              (slice (newSignaturesToProcess (lastProcessedSignature s) w) i (i + BATCH_FETCH_SIZE)))
         = Inl x"
  shows "processNewTransactions e s = (s, [])"
proof -
  let ?news = "newSignaturesToProcess (lastProcessedSignature s) w"
  have "?news \<noteq> []" using assms(2) by auto
  moreover have "w \<noteq> []"
    using assms(2) by (auto simp: newSignaturesToProcess_def slice_def Let_def split: if_splits)
  moreover obtain y where "fetchAndCount e ?news 0 [] = Inl y"
    using fetchAndCount_fails [OF assms(2) _ _ assms(4), of 0 "[]"] assms(3) by auto
  ultimately show ?thesis
    using assms(1) by (simp add: processNewTransactions_def)
qed

text \<open>The node answers the only chunk with a rate-limit error.\<close>

theorem rpc_error_aborts_cycle_witness:
  "processNewTransactions
     (exampleEnv (newerThan [\<lparr>signature = ''s2'', slot = 2\<rparr>, \<lparr>signature = ''s1'', slot = 1\<rparr>])
        (\<lambda>sigs. Inl (RpcError ''429 Too Many Requests'')) (\<lambda>q. True))
     \<lparr>lastProcessedSignature = Some ''s1'', wallet_scores = Map.empty\<rparr>
   = (\<lparr>lastProcessedSignature = Some ''s1'', wallet_scores = Map.empty\<rparr>, [])"
  using rpc_error_aborts_cycle [of
     "exampleEnv (newerThan [\<lparr>signature = ''s2'', slot = 2\<rparr>, \<lparr>signature = ''s1'', slot = 1\<rparr>])
        (\<lambda>sigs. Inl (RpcError ''429 Too Many Requests'')) (\<lambda>q. True)"
     "\<lparr>lastProcessedSignature = Some ''s1'', wallet_scores = Map.empty\<rparr>"
     "[\<lparr>signature = ''s2'', slot = 2\<rparr>]" 0 "RpcError ''429 Too Many Requests''"]
  by (simp add: exampleEnv_def newerThan_def nsp_not_found)

text \<open>
  Claim C8. When the fetched window is not empty and none of its entries is left to
  process, the cycle sets the checkpoint to the identifier of the window's newest
  entry, leaves every counter as it is and sends nothing to the database.
\<close>

theorem fast_forward:
  assumes "getSignaturesForAddress e (lastProcessedSignature s) = Inr (newest # older)"
    and "newSignaturesToProcess (lastProcessedSignature s) (newest # older) = []"
  shows "lastProcessedSignature (fst (processNewTransactions e s)) = Some (signature newest) \<and>
         wallet_scores (fst (processNewTransactions e s)) = wallet_scores s \<and>
         snd (processNewTransactions e s) = []"
  using assms by (simp add: processNewTransactions_def)

text \<open>The window's newest entry is the checkpoint \<open>s3\<close> itself.\<close>

theorem fast_forward_witness:
  "lastProcessedSignature (fst (processNewTransactions
      (exampleEnv (\<lambda>until. Inr [\<lparr>signature = ''s3'', slot = 3\<rparr>, \<lparr>signature = ''s2'', slot = 2\<rparr>])
         (\<lambda>sigs. Inr []) (\<lambda>q. True))
      \<lparr>lastProcessedSignature = Some ''s3'', wallet_scores = [''W'' \<mapsto> 4]\<rparr>)) = Some ''s3'' \<and>
   wallet_scores (fst (processNewTransactions
      (exampleEnv (\<lambda>until. Inr [\<lparr>signature = ''s3'', slot = 3\<rparr>, \<lparr>signature = ''s2'', slot = 2\<rparr>])
         (\<lambda>sigs. Inr []) (\<lambda>q. True))
      \<lparr>lastProcessedSignature = Some ''s3'', wallet_scores = [''W'' \<mapsto> 4]\<rparr>)) = [''W'' \<mapsto> 4]"
  using fast_forward [of
      "exampleEnv (\<lambda>until. Inr [\<lparr>signature = ''s3'', slot = 3\<rparr>, \<lparr>signature = ''s2'', slot = 2\<rparr>])
         (\<lambda>sigs. Inr []) (\<lambda>q. True)"
      "\<lparr>lastProcessedSignature = Some ''s3'', wallet_scores = [''W'' \<mapsto> 4]\<rparr>"
      "\<lparr>signature = ''s3'', slot = 3\<rparr>" "[\<lparr>signature = ''s2'', slot = 2\<rparr>]"]
    nsp_found [of "''s3''" 0 "[\<lparr>signature = ''s3'', slot = 3\<rparr>, \<lparr>signature = ''s2'', slot = 2\<rparr>]"]
  by (simp add: exampleEnv_def)

section \<open>The score endpoint\<close>

text \<open>
  Claim C10. For an address that passes both checks of the handler (it is not empty and
  \<^verbatim>\<open>new PublicKey\<close> accepts it) and has no row in the table, the endpoint, once the
  database has answered the query, responds with status 200 and an interaction count of
  0. An address that fails a check is answered with status 400, and no query is sent.
\<close>

theorem getScore_unknown_wallet:
  "(walletAddress \<noteq> [] \<and> isValidSolanaAddress PublicKey walletAddress \<and>
      resolves \<and> t walletAddress = None \<longrightarrow>
      getScore PublicKey pid resolves t walletAddress
        = ((200, ScoreBody walletAddress pid 0), [walletAddress])) \<and>
   (walletAddress = [] \<or> \<not> isValidSolanaAddress PublicKey walletAddress \<longrightarrow>
      fst (fst (getScore PublicKey pid resolves t walletAddress)) = 400 \<and>
      snd (getScore PublicKey pid resolves t walletAddress) = [])"
  by (simp add: getScore_def db_query_def)

text \<open>With a constructor that accepts the strings of length 3, and a table that has a
  row for \<open>abc\<close> only.\<close>

theorem getScore_unknown_wallet_witness:
  "getScore (\<lambda>a. if length a = 3 then Inr a else Inl ()) ''P'' True [''abc'' \<mapsto> 7] ''xyz''
     = ((200, ScoreBody ''xyz'' ''P'' 0), [''xyz'']) \<and>
   fst (fst (getScore (\<lambda>a. if length a = 3 then Inr a else Inl ()) ''P'' True [''abc'' \<mapsto> 7] ''not base58'')) = 400 \<and>
   snd (getScore (\<lambda>a. if length a = 3 then Inr a else Inl ()) ''P'' True [''abc'' \<mapsto> 7] ''not base58'') = []"
  using getScore_unknown_wallet [of "''xyz''" "\<lambda>a. if length a = 3 then Inr a else Inl ()" True
        "[''abc'' \<mapsto> 7]" "''P''"]
     getScore_unknown_wallet [of "''not base58''" "\<lambda>a. if length a = 3 then Inr a else Inl ()" True
        "[''abc'' \<mapsto> 7]" "''P''"]
  by (simp add: isValidSolanaAddress_def)

section \<open>The checkpoint\<close>

text \<open>
  Claim C1, at a cycle whose \<^verbatim>\<open>COMMIT\<close> rejects. The ledger holds one transaction \<open>s1\<close>, of
  wallet \<open>W\<close>, that invokes the target program. The cycle rolls the transaction back, so
  the table has no row for \<open>W\<close>, and it then sets the checkpoint to \<open>s1\<close>. The next
  cycle, with a database that works, is asked for nothing newer than \<open>s1\<close> and finds
  nothing to do: the interaction of \<open>W\<close> is never counted.
\<close>

theorem failed_commit_advances_checkpoint:
  "processNewTransactions
     (exampleEnv (newerThan [\<lparr>signature = ''s1'', slot = 1\<rparr>])
        (\<lambda>sigs. Inr (map (\<lambda>_. Some (txBy ''W'' ''P'' None)) sigs)) (\<lambda>q. q \<noteq> COMMIT))
     \<lparr>lastProcessedSignature = None, wallet_scores = Map.empty\<rparr>
   = (\<lparr>lastProcessedSignature = Some ''s1'', wallet_scores = Map.empty\<rparr>,
      [BEGIN, UPSERT ''W'' 1, COMMIT, ROLLBACK])
   \<and>
   wallet_scores
     (cycles
        [exampleEnv (newerThan [\<lparr>signature = ''s1'', slot = 1\<rparr>])
           (\<lambda>sigs. Inr (map (\<lambda>_. Some (txBy ''W'' ''P'' None)) sigs)) (\<lambda>q. q \<noteq> COMMIT),
         exampleEnv (newerThan [\<lparr>signature = ''s1'', slot = 1\<rparr>])
           (\<lambda>sigs. Inr (map (\<lambda>_. Some (txBy ''W'' ''P'' None)) sigs)) (\<lambda>q. True)]
        \<lparr>lastProcessedSignature = None, wallet_scores = Map.empty\<rparr>) ''W'' = None"
  by (simp add: processNewTransactions_def exampleEnv_def newerThan_def newSignaturesToProcess_def
      truthy_def fetchAndCount.simps slice_def BATCH_FETCH_SIZE_def countTransaction_def txBy_def
      get_or_0_def Map_get_def mergeCounts_def tryBlock_def client_query_def upsert_def
      in_INTEGER_def Let_def)

text \<open>
  The same cycle when \<^verbatim>\<open>db.getClient()\<close> rejects, and when the \<^verbatim>\<open>ROLLBACK\<close> rejects as well as
  the \<^verbatim>\<open>COMMIT\<close>: these exceptions reach the outer \<^verbatim>\<open>catch\<close>, and the checkpoint stays as
  it was.
\<close>

lemma escaping_failures_keep_checkpoint:
  "processNewTransactions
     ((exampleEnv (newerThan [\<lparr>signature = ''s1'', slot = 1\<rparr>])
        (\<lambda>sigs. Inr (map (\<lambda>_. Some (txBy ''W'' ''P'' None)) sigs)) (\<lambda>q. True))
      \<lparr>getClientOk := False\<rparr>)
     \<lparr>lastProcessedSignature = None, wallet_scores = Map.empty\<rparr>
   = (\<lparr>lastProcessedSignature = None, wallet_scores = Map.empty\<rparr>, [])
   \<and>
   processNewTransactions
     (exampleEnv (newerThan [\<lparr>signature = ''s1'', slot = 1\<rparr>])
        (\<lambda>sigs. Inr (map (\<lambda>_. Some (txBy ''W'' ''P'' None)) sigs))
        (\<lambda>q. q \<noteq> COMMIT \<and> q \<noteq> ROLLBACK))
     \<lparr>lastProcessedSignature = None, wallet_scores = Map.empty\<rparr>
   = (\<lparr>lastProcessedSignature = None, wallet_scores = Map.empty\<rparr>,
      [BEGIN, UPSERT ''W'' 1, COMMIT, ROLLBACK])"
  by (simp add: processNewTransactions_def exampleEnv_def newerThan_def newSignaturesToProcess_def
      truthy_def fetchAndCount.simps slice_def BATCH_FETCH_SIZE_def countTransaction_def txBy_def
      get_or_0_def Map_get_def mergeCounts_def tryBlock_def client_query_def upsert_def
      in_INTEGER_def Let_def)

lemma fetchAndCount_Nil: "fetchAndCount e [] 0 [] = Inr []"
  by (simp add: fetchAndCount.simps)

text \<open>
  Claim C2, as the code has it. The checkpoint is a single value of the process, kept in
  process memory only: a process starts with no checkpoint, whatever the database
  holds, and nothing is read from the database for it. So the first cycle after a
  restart asks the node without \<^verbatim>\<open>until\<close>, takes the whole fetched window as new, and
  merges the counts of all of it into the table.
\<close>

theorem checkpoint_only_in_memory:
  assumes "getSignaturesForAddress e None = Inr w"
    and "fetchAndCount e w 0 [] = Inr cs"
    and "mergeCounts e cs t = (r, t', log)"
  shows "lastProcessedSignature (processStart t) = None \<and>
         getLastProcessedSignatureFromDB t = None \<and>
         newSignaturesToProcess (lastProcessedSignature (processStart t)) w = w \<and>
         wallet_scores (fst (processNewTransactions e (processStart t))) = t'"
proof (cases "w = []")
  case True
  then have "cs = []" using assms(2) by (simp add: fetchAndCount_Nil)
  then have "t' = t" using assms(3) by (simp add: mergeCounts_def)
  then show ?thesis
    using True assms(1)
    by (simp add: processStart_def processNewTransactions_def newSignaturesToProcess_def
        truthy_def getLastProcessedSignatureFromDB_def)
next
  case False
  then show ?thesis
    using assms
    by (cases r)
      (auto simp: processStart_def processNewTransactions_def newSignaturesToProcess_def
        truthy_def getLastProcessedSignatureFromDB_def split: list.splits)
qed

text \<open>The table holds count 1 for \<open>W\<close>, from the transaction \<open>s1\<close> that a cycle of the
  process before counted. The first cycle of the new process counts \<open>s1\<close> again.\<close>

theorem checkpoint_only_in_memory_witness:
  "wallet_scores (fst (processNewTransactions
      (exampleEnv (newerThan [\<lparr>signature = ''s1'', slot = 1\<rparr>])
         (\<lambda>sigs. Inr (map (\<lambda>_. Some (txBy ''W'' ''P'' None)) sigs)) (\<lambda>q. True))
      (processStart [''W'' \<mapsto> 1]))) ''W'' = Some 2"
proof -
  let ?e = "exampleEnv (newerThan [\<lparr>signature = ''s1'', slot = 1\<rparr>])
         (\<lambda>sigs. Inr (map (\<lambda>_. Some (txBy ''W'' ''P'' None)) sigs)) (\<lambda>q. True)"
  have w: "getSignaturesForAddress ?e None = Inr [\<lparr>signature = ''s1'', slot = 1\<rparr>]"
    by (simp add: exampleEnv_def newerThan_def)
  have cs: "fetchAndCount ?e [\<lparr>signature = ''s1'', slot = 1\<rparr>] 0 [] = Inr [(''W'', 1)]"
    by (simp add: fetchAndCount.simps exampleEnv_def slice_def BATCH_FETCH_SIZE_def
        countTransaction_def txBy_def get_or_0_def Map_get_def)
  have m: "mergeCounts ?e [(''W'', 1)] [''W'' \<mapsto> 1]
             = (Completed, [''W'' \<mapsto> 2], [BEGIN, UPSERT ''W'' 1, COMMIT])"
    by (simp add: mergeCounts_def exampleEnv_def tryBlock_def client_query_def upsert_def
        in_INTEGER_def Let_def)
  show ?thesis
    using checkpoint_only_in_memory [OF w cs m] by simp
qed

text \<open>A cycle ends with checkpoint \<open>s1\<close>; the process that is started next, on the
  table this cycle left, has no checkpoint.\<close>

theorem restart_loses_checkpoint_counterexample:
  "lastProcessedSignature
     (fst (processNewTransactions
        (exampleEnv (newerThan [\<lparr>signature = ''s1'', slot = 1\<rparr>])
           (\<lambda>sigs. Inr (map (\<lambda>_. Some (txBy ''W'' ''P'' None)) sigs)) (\<lambda>q. True))
        (processStart Map.empty))) = Some ''s1'' \<and>
   lastProcessedSignature
     (processStart (wallet_scores
        (fst (processNewTransactions
           (exampleEnv (newerThan [\<lparr>signature = ''s1'', slot = 1\<rparr>])
              (\<lambda>sigs. Inr (map (\<lambda>_. Some (txBy ''W'' ''P'' None)) sigs)) (\<lambda>q. True))
           (processStart Map.empty))))) = None"
  by (simp add: processNewTransactions_def exampleEnv_def newerThan_def newSignaturesToProcess_def
      truthy_def fetchAndCount.simps slice_def BATCH_FETCH_SIZE_def countTransaction_def txBy_def
      get_or_0_def Map_get_def mergeCounts_def tryBlock_def client_query_def upsert_def
      in_INTEGER_def Let_def processStart_def)

section \<open>The scheduler\<close>

lemma sched_inv:
  "settled (foldl sched_step runIndexer evs) \<le> started (foldl sched_step runIndexer evs) \<and>
   (if intervalArmed (foldl sched_step runIndexer evs)
    then 1 \<le> settled (foldl sched_step runIndexer evs)
    else started (foldl sched_step runIndexer evs) = 1 \<and>
         settled (foldl sched_step runIndexer evs) = 0)"
proof (induction evs rule: rev_induct)
  case Nil
  show ?case by (simp add: runIndexer_def)
next
  case (snoc ev evs)
  then show ?case by (cases ev) (auto split: if_splits)
qed

text \<open>
  Claim C3, as the code has it. \<^verbatim>\<open>runIndexer\<close> starts exactly one cycle at once. Until that
  cycle has settled the timer is not armed: exactly one cycle is running and an elapsed
  interval starts nothing. Once the timer is armed, at least one cycle has settled, and
  every elapsed interval starts one more cycle, whether or not the cycles started
  before have settled.
\<close>

theorem scheduler_cycles:
  "started runIndexer = 1 \<and> running runIndexer = 1 \<and>
   (\<not> intervalArmed (foldl sched_step runIndexer evs) \<longrightarrow>
      running (foldl sched_step runIndexer evs) = 1 \<and>
      sched_step (foldl sched_step runIndexer evs) IntervalElapsed = foldl sched_step runIndexer evs) \<and>
   (intervalArmed (foldl sched_step runIndexer evs) \<longrightarrow>
      1 \<le> settled (foldl sched_step runIndexer evs) \<and>
      running (sched_step (foldl sched_step runIndexer evs) IntervalElapsed)
        = running (foldl sched_step runIndexer evs) + 1)"
  using sched_inv [of evs]
  by (auto simp: running_def runIndexer_def split: if_splits)

theorem scheduler_cycles_witness:
  "running (foldl sched_step runIndexer [IntervalElapsed, IntervalElapsed]) = 1 \<and>
   running (sched_step (foldl sched_step runIndexer [CycleSettled]) IntervalElapsed) = 1"
  using scheduler_cycles [of "[IntervalElapsed, IntervalElapsed]"]
    scheduler_cycles [of "[CycleSettled]"]
  by (simp add: runIndexer_def running_def)

text \<open>The first cycle settles, the interval elapses twice and the cycle the timer
  started first has not settled: two cycles are running.\<close>

theorem overlapping_cycles_counterexample:
  "running (foldl sched_step runIndexer [CycleSettled, IntervalElapsed, IntervalElapsed]) = 2"
  by (simp add: runIndexer_def running_def)

end
